theory Spec2Isabelle
  imports Main "HOL-Library.Multiset"
begin

section \<open>Data model (main.go, lines 45-71)\<close>

text \<open>
  The Go struct \<^verbatim>\<open>route\<close>. Go strings are byte sequences and \<^verbatim>\<open>len\<close> counts bytes;
  \<^typ>\<open>string\<close> is a list of 8-bit characters, so \<^const>\<open>length\<close> is \<^verbatim>\<open>len\<close> and
  \<^term>\<open>take n p\<close> is \<^verbatim>\<open>p[0:n]\<close> whenever \<^term>\<open>n \<le> length p\<close>.
\<close>

record route =
  path :: string
  matchType :: string
  destination :: string
  dynamicEntry :: bool

text \<open>
  The three package-level variables, threaded explicitly through every operation:
  the slice \<^verbatim>\<open>prefixRoutesTable\<close>, the map \<^verbatim>\<open>exactMatchTable\<close> and the slice
  \<^verbatim>\<open>dynamicEntries\<close> (the ledger of paths for which a lookup created a cache entry).
\<close>

record tables =
  prefixRoutesTable :: "route list"
  exactMatchTable :: "string \<rightharpoonup> route"
  dynamicEntries :: "string list"

text \<open>Go's \<^verbatim>\<open>error\<close> result; \<^term>\<open>None\<close> is \<^verbatim>\<open>nil\<close>. The source never builds an error value.\<close>

datatype error = Error string

text \<open>The zero value of \<^verbatim>\<open>route\<close>, which \<^verbatim>\<open>make([]route, 10)\<close> puts in every slot.\<close>

definition zeroRoute :: route where
  "zeroRoute = \<lparr>path = '''', matchType = '''', destination = '''', dynamicEntry = False\<rparr>"

text \<open>
  \<^verbatim>\<open>init()\<close>: \<^verbatim>\<open>make([]route, 10)\<close> and \<^verbatim>\<open>make([]string, 10)\<close> give slices of LENGTH ten
  (ten zero routes, ten empty strings), \<^verbatim>\<open>make(map[string]route, 10)\<close> an empty map.
\<close>

definition init :: tables where
  "init = \<lparr>prefixRoutesTable = replicate 10 zeroRoute,
           exactMatchTable = Map.empty,
           dynamicEntries = replicate 10 ''''\<rparr>"

section \<open>\<^verbatim>\<open>sort.Slice\<close> (standard library, called at main.go lines 191-192)\<close>

text \<open>
  \<^verbatim>\<open>sort.Slice\<close> is not part of the repository, so it is a parameter of the model. It sees
  the slice only through the comparison \<^verbatim>\<open>less(i, j) = len(t[i].path) > len(t[j].path)\<close>, so
  the rearrangement it makes is a function of the list of path lengths: a sorter maps
  that list of keys to the list of old positions in their new order. The library promises
  a rearrangement after which no later element is \<^verbatim>\<open>less\<close> than an earlier one, and
  does not promise stability; \<open>sorter_ok\<close> is exactly that promise. Under it every
  position a sorter returns is inside the slice, so \<open>t ! i\<close> below is always a record of \<open>t\<close>.
\<close>

type_synonym sorter = "nat list \<Rightarrow> nat list"

definition sortSlice :: "sorter \<Rightarrow> route list \<Rightarrow> route list" where
  "sortSlice srt t = map (\<lambda>i. t ! i) (srt (map (\<lambda>r. length (path r)) t))"

definition sorter_ok :: "sorter \<Rightarrow> bool" where
  "sorter_ok srt \<longleftrightarrow>
     (\<forall>ks. mset (srt ks) = mset [0..<length ks] \<and>
           sorted_wrt (\<lambda>i j. ks ! j \<le> ks ! i) (srt ks))"

text \<open>One conforming sorter, a stable insertion sort on positions, for concrete runs.\<close>

fun insertPos :: "nat list \<Rightarrow> nat \<Rightarrow> nat list \<Rightarrow> nat list" where
  "insertPos ks i [] = [i]"
| "insertPos ks i (j # js) =
     (if ks ! j \<le> ks ! i then i # j # js else j # insertPos ks i js)"

fun insertAll :: "nat list \<Rightarrow> nat list \<Rightarrow> nat list" where
  "insertAll ks [] = []"
| "insertAll ks (i # is) = insertPos ks i (insertAll ks is)"

definition insertionSorter :: sorter where
  "insertionSorter ks = insertAll ks [0..<length ks]"

section \<open>The operations (main.go, lines 156-262)\<close>

text \<open>
  \<^verbatim>\<open>flushDynamicRoutes\<close>: the loop over the ledger, then \<^verbatim>\<open>dynamicEntries = nil\<close>.
  \<open>flushOne\<close> is the body of \<^verbatim>\<open>for _, p := range dynamicEntries\<close> acting on the map
  (\<^verbatim>\<open>dR, ok := exactMatchTable[p]\<close>, then \<^verbatim>\<open>delete\<close> when \<^verbatim>\<open>ok && dR.dynamicEntry\<close>),
  \<open>flushLoop\<close> is the loop.
\<close>

definition flushOne :: "string \<Rightarrow> (string \<rightharpoonup> route) \<Rightarrow> (string \<rightharpoonup> route)" where
  "flushOne p m =
     (if p \<noteq> '''' then
        (case m p of
           Some dR \<Rightarrow> if dynamicEntry dR then m(p := None) else m
         | None \<Rightarrow> m)
      else m)"

fun flushLoop :: "string list \<Rightarrow> (string \<rightharpoonup> route) \<Rightarrow> (string \<rightharpoonup> route)" where
  "flushLoop [] m = m"
| "flushLoop (p # ps) m = flushLoop ps (flushOne p m)"

definition flushDynamicRoutes :: "tables \<Rightarrow> tables" where
  "flushDynamicRoutes s =
     s\<lparr>exactMatchTable := flushLoop (dynamicEntries s) (exactMatchTable s),
       dynamicEntries := []\<rparr>"

text \<open>
  The loop \<^verbatim>\<open>for i, r := range prefixRoutesTable { if r.path == path {...} }\<close> of
  \<^verbatim>\<open>AddRoute\<close>: the position of the first record whose path is the argument.
\<close>

fun findPath :: "string \<Rightarrow> route list \<Rightarrow> nat option" where
  "findPath p [] = None"
| "findPath p (r # rs) = (if path r = p then Some 0 else map_option Suc (findPath p rs))"

text \<open>
  \<^verbatim>\<open>AddRoute(path, matchType, destination)\<close>. The only test of \<^verbatim>\<open>matchType\<close> is
  \<^verbatim>\<open>matchType == "exact"\<close>; every \<^verbatim>\<open>return\<close> is \<^verbatim>\<open>return nil\<close>. The deferred
  \<^verbatim>\<open>flushDynamicRoutes()\<close> runs after the in-place update and before the call returns;
  the append-and-sort branch has no flush.
\<close>

definition AddRoute :: "sorter \<Rightarrow> string \<Rightarrow> string \<Rightarrow> string \<Rightarrow> tables \<Rightarrow> error option \<times> tables" where
  "AddRoute srt p mt d s =
     (let rte = \<lparr>path = p, matchType = mt, destination = d, dynamicEntry = False\<rparr> in
      if mt = ''exact'' then
        (None, s\<lparr>exactMatchTable := (exactMatchTable s)(p \<mapsto> rte)\<rparr>)
      else
        (case findPath p (prefixRoutesTable s) of
           Some i \<Rightarrow>
             (None, flushDynamicRoutes
                      (s\<lparr>prefixRoutesTable :=
                           (prefixRoutesTable s)[i := (prefixRoutesTable s ! i)\<lparr>destination := d\<rparr>]\<rparr>))
         | None \<Rightarrow>
             (None, s\<lparr>prefixRoutesTable := sortSlice srt (prefixRoutesTable s @ [rte])\<rparr>)))"

text \<open>
  The match test of \<^verbatim>\<open>RouteLookup\<close> (line 233). The length test comes first and Go's
  \<^verbatim>\<open>&&\<close> short-circuits, so the slice expression never panics.
\<close>

definition prefixMatch :: "string \<Rightarrow> route \<Rightarrow> bool" where
  "prefixMatch p r \<longleftrightarrow>
     length (path r) \<le> length p \<and> length (path r) \<noteq> 0 \<and> path r = take (length (path r)) p"

text \<open>The loop \<^verbatim>\<open>for _, r := range prefixRoutesTable\<close> of \<^verbatim>\<open>RouteLookup\<close>: the first match.\<close>

fun scanPrefixes :: "string \<Rightarrow> route list \<Rightarrow> route option" where
  "scanPrefixes p [] = None"
| "scanPrefixes p (r # rs) = (if prefixMatch p r then Some r else scanPrefixes p rs)"

definition createDynamicRoute :: "string \<Rightarrow> string \<Rightarrow> tables \<Rightarrow> tables" where
  "createDynamicRoute p d s =
     s\<lparr>dynamicEntries := dynamicEntries s @ [p],
       exactMatchTable := (exactMatchTable s)
         (p \<mapsto> \<lparr>path = p, matchType = ''exact'', destination = d, dynamicEntry = True\<rparr>)\<rparr>"

text \<open>
  \<^verbatim>\<open>RouteLookup(path)\<close> returns the destination, the error and the new tables. The
  \<^verbatim>\<open>fmt.Println\<close> calls only write to standard output and are left out.
\<close>

definition RouteLookup :: "string \<Rightarrow> tables \<Rightarrow> (string \<times> error option) \<times> tables" where
  "RouteLookup p s =
     (case exactMatchTable s p of
        Some rte \<Rightarrow> ((destination rte, None), s)
      | None \<Rightarrow>
          (case scanPrefixes p (prefixRoutesTable s) of
             Some r \<Rightarrow> ((destination r, None), createDynamicRoute p (destination r) s)
           | None \<Rightarrow> ((''default-service'', None), createDynamicRoute p ''default-service'' s)))"

section \<open>Sequences of calls\<close>

text \<open>
  A caller's sequence of calls, as the test table \<^verbatim>\<open>addLookupTests\<close> lists them:
  each entry is an \<^verbatim>\<open>addRoute\<close> with its three arguments or a \<^verbatim>\<open>routeLookup\<close>.
\<close>

datatype operation = AddRouteOp string string string | RouteLookupOp string

fun step :: "sorter \<Rightarrow> operation \<Rightarrow> tables \<Rightarrow> tables" where
  "step srt (AddRouteOp p mt d) s = snd (AddRoute srt p mt d s)"
| "step srt (RouteLookupOp p) s = snd (RouteLookup p s)"

fun run :: "sorter \<Rightarrow> operation list \<Rightarrow> tables \<Rightarrow> tables" where
  "run srt [] s = s"
| "run srt (x # xs) s = run srt xs (step srt x s)"

text \<open>
  What the caller sees of a sequence: the error of each \<^verbatim>\<open>AddRoute\<close>, the destination
  and the error of each \<^verbatim>\<open>RouteLookup\<close>, as \<^verbatim>\<open>TestRouteAddsLookups\<close> compares them.
\<close>

datatype outcome = AddRouteResult "error option" | RouteLookupResult string "error option"

fun outputs :: "sorter \<Rightarrow> operation list \<Rightarrow> tables \<Rightarrow> outcome list" where
  "outputs srt [] s = []"
| "outputs srt (AddRouteOp p mt d # xs) s =
     AddRouteResult (fst (AddRoute srt p mt d s)) # outputs srt xs (snd (AddRoute srt p mt d s))"
| "outputs srt (RouteLookupOp p # xs) s =
     RouteLookupResult (fst (fst (RouteLookup p s))) (snd (fst (RouteLookup p s)))
       # outputs srt xs (snd (RouteLookup p s))"

text \<open>
  The calls that can stand between two lookups of \<open>p\<close> without touching what the first
  one found: any lookup, and the registration of an exact route for another path.
\<close>

fun leavesLookupOf :: "string \<Rightarrow> operation \<Rightarrow> bool" where
  "leavesLookupOf p (RouteLookupOp q) = True"
| "leavesLookupOf p (AddRouteOp q mt d) = (mt = ''exact'' \<and> q \<noteq> p)"

text \<open>The descending order on path lengths that the prefix table is kept in.\<close>

definition longerFirst :: "route \<Rightarrow> route \<Rightarrow> bool" where
  "longerFirst a b \<longleftrightarrow> length (path b) \<le> length (path a)"

text \<open>The first six calls of \<^verbatim>\<open>main()\<close> and of \<^verbatim>\<open>addLookupTests\<close>, and the seven that follow.\<close>

definition exampleAdds :: "operation list" where
  "exampleAdds =
     [AddRouteOp ''/api/1'' ''exact'' ''service-1'',
      AddRouteOp ''/api/1/1'' ''exact'' ''service-2'',
      AddRouteOp ''/api/2/1'' ''prefix'' ''service-3'',
      AddRouteOp ''/api/2/'' ''prefix'' ''service-4'',
      AddRouteOp ''/api/1'' ''prefix'' ''service-5'',
      AddRouteOp ''/api/2/1/1'' ''prefix'' ''service-6'']"

definition exampleLookups :: "operation list" where
  "exampleLookups =
     [RouteLookupOp ''/api/1'',
      RouteLookupOp ''/api/1/2'',
      RouteLookupOp ''/api/3'',
      RouteLookupOp ''/api/2/1/2'',
      RouteLookupOp ''/api/2/'',
      AddRouteOp ''/api/2/'' ''prefix'' ''service-7'',
      RouteLookupOp ''/api/2/'']"

text \<open>
  Concrete tables for exercising the theorems: the tables after the six registrations of
  \<^verbatim>\<open>main()\<close>, and tables in which the ledger names one entry that a caller has since
  registered (\<^verbatim>\<open>/a\<close>) and one entry that is still a cache entry (\<^verbatim>\<open>/b\<close>).
\<close>

definition exampleTables :: tables where
  "exampleTables = run insertionSorter exampleAdds init"

definition flushExample :: tables where
  "flushExample =
     run insertionSorter
       [RouteLookupOp ''/a'', RouteLookupOp ''/b'', AddRouteOp ''/a'' ''exact'' ''svc''] init"

text \<open>
  What every reachable prefix table satisfies: descending path lengths, at most one record
  for each non-empty path, and the ten empty-path records that \<^verbatim>\<open>init()\<close> allocated.
\<close>

definition tableInv :: "route list \<Rightarrow> bool" where
  "tableInv t \<longleftrightarrow>
     sorted_wrt longerFirst t \<and>
     (\<forall>p. p \<noteq> '''' \<longrightarrow> count_list (map path t) p \<le> 1) \<and>
     count_list (map path t) '''' = 10"

text \<open>
  When no two different records of a slice have paths of the same length, the order that
  \<^verbatim>\<open>sort.Slice\<close> leaves does not depend on how it breaks ties. \<open>tiesFree\<close> checks, along a
  sequence of calls, that every slice handed to \<^verbatim>\<open>sort.Slice\<close> is of that kind.
\<close>

definition untied :: "route list \<Rightarrow> bool" where
  "untied t \<longleftrightarrow>
     list_all (\<lambda>a. list_all (\<lambda>b. length (path a) \<noteq> length (path b) \<or> a = b) t) t"

fun tiesFree :: "operation list \<Rightarrow> tables \<Rightarrow> bool" where
  "tiesFree [] s = True"
| "tiesFree (AddRouteOp p mt d # xs) s =
     ((mt = ''exact'' \<or> findPath p (prefixRoutesTable s) \<noteq> None \<or>
       untied (prefixRoutesTable s @
                 [\<lparr>path = p, matchType = mt, destination = d, dynamicEntry = False\<rparr>]))
      \<and> tiesFree xs (snd (AddRoute insertionSorter p mt d s)))"
| "tiesFree (RouteLookupOp p # xs) s = tiesFree xs (snd (RouteLookup p s))"

text \<open>
  The tables after a lookup of \<^verbatim>\<open>/a/b\<close> from the initial tables, followed by the first
  registration of the prefix route \<^verbatim>\<open>/a\<close>.
\<close>

definition staleExample :: tables where
  "staleExample =
     run insertionSorter [RouteLookupOp ''/a/b'', AddRouteOp ''/a'' ''prefix'' ''svc''] init"

section \<open>The sorter\<close>

lemma mset_insertPos: "mset (insertPos ks i js) = add_mset i (mset js)"
  by (induction js) auto

lemma mset_insertAll: "mset (insertAll ks is) = mset is"
  by (induction "is") (auto simp: mset_insertPos)

lemma set_insertPos: "set (insertPos ks i js) = insert i (set js)"
  by (induction js) auto

lemma sorted_insertPos:
  "sorted_wrt (\<lambda>i j. ks ! j \<le> ks ! i) js \<Longrightarrow> sorted_wrt (\<lambda>i j. ks ! j \<le> ks ! i) (insertPos ks i js)"
  by (induction js) (auto simp: set_insertPos)

lemma sorted_insertAll: "sorted_wrt (\<lambda>i j. ks ! j \<le> ks ! i) (insertAll ks is)"
  by (induction "is") (auto simp: sorted_insertPos)

lemma insertionSorter_ok: "sorter_ok insertionSorter"
  by (simp add: sorter_ok_def insertionSorter_def mset_insertAll sorted_insertAll)

lemma sorter_ok_mset: "sorter_ok srt \<Longrightarrow> mset (srt ks) = mset [0..<length ks]"
  by (simp add: sorter_ok_def)

lemma sorter_ok_sorted: "sorter_ok srt \<Longrightarrow> sorted_wrt (\<lambda>i j. ks ! j \<le> ks ! i) (srt ks)"
  by (simp add: sorter_ok_def)

lemma sorter_ok_set:
  assumes "sorter_ok srt" shows "set (srt ks) = {0..<length ks}"
proof -
  have "set_mset (mset (srt ks)) = set_mset (mset [0..<length ks])"
    using sorter_ok_mset[OF assms] by simp
  then show ?thesis by simp
qed

lemma sortSlice_mset:
  assumes "sorter_ok srt"
  shows "mset (sortSlice srt t) = mset t"
proof -
  let ?ks = "map (\<lambda>r. length (path r)) t"
  have "mset (srt ?ks) = mset [0..<length t]"
    using sorter_ok_mset[OF assms, of ?ks] by simp
  then have "image_mset (\<lambda>i. t ! i) (mset (srt ?ks)) = image_mset (\<lambda>i. t ! i) (mset [0..<length t])"
    by simp
  then have "mset (map (\<lambda>i. t ! i) (srt ?ks)) = mset (map (\<lambda>i. t ! i) [0..<length t])"
    by simp
  then show ?thesis
    by (simp add: sortSlice_def map_nth)
qed

lemma sortSlice_set: "sorter_ok srt \<Longrightarrow> set (sortSlice srt t) = set t"
  using sortSlice_mset mset_eq_setD by blast

lemma sortSlice_sorted:
  assumes "sorter_ok srt"
  shows "sorted_wrt longerFirst (sortSlice srt t)"
proof -
  let ?ks = "map (\<lambda>r. length (path r)) t"
  have s: "sorted_wrt (\<lambda>i j. ?ks ! j \<le> ?ks ! i) (srt ?ks)"
    by (rule sorter_ok_sorted[OF assms])
  have r: "set (srt ?ks) = {0..<length t}"
    using sorter_ok_set[OF assms, of ?ks] by simp
  have "sorted_wrt (\<lambda>i j. longerFirst (t ! i) (t ! j)) (srt ?ks)"
  proof (rule sorted_wrt_mono_rel[OF _ s])
    fix i j assume "i \<in> set (srt ?ks)" "j \<in> set (srt ?ks)" "?ks ! j \<le> ?ks ! i"
    then show "longerFirst (t ! i) (t ! j)"
      using r by (simp add: longerFirst_def)
  qed
  then show ?thesis
    by (simp add: sortSlice_def sorted_wrt_map)
qed

section \<open>Registration never fails\<close>

text \<open>
  Claim C2, as amended: for every call \<^verbatim>\<open>AddRoute(path, matchType, destination)\<close> the
  returned error is nil, whatever \<^verbatim>\<open>matchType\<close> is: the two recognised literals succeed
  with a nil error, and an unrecognised \<^verbatim>\<open>matchType\<close> is not rejected either.
\<close>

theorem AddRoute_error_nil: "fst (AddRoute srt p mt d s) = None"
  by (simp add: AddRoute_def Let_def split: option.split)

text \<open>
  Claim C2 as stated fails: for the unrecognised \<^verbatim>\<open>matchType\<close> \<^verbatim>\<open>"exat"\<close> the error is nil,
  so "non-nil iff neither exact nor prefix" does not hold.
\<close>

theorem AddRoute_error_iff_counterexample:
  "\<not> ((fst (AddRoute insertionSorter ''/x'' ''exat'' ''d'' init) \<noteq> None)
       \<longleftrightarrow> (''exat'' \<noteq> ''exact'' \<and> ''exat'' \<noteq> ''prefix''))"
  by (simp add: AddRoute_def Let_def split: option.split)

section \<open>The flush\<close>

lemma flushOne_apply:
  "flushOne p m q =
     (if q = p \<and> p \<noteq> '''' \<and> (\<exists>r. m p = Some r \<and> dynamicEntry r) then None else m q)"
  by (cases "m p") (simp_all add: flushOne_def)

lemma flushLoop_spec:
  "flushLoop ps m q =
     (if q \<in> set ps \<and> q \<noteq> '''' \<and> (\<exists>r. m q = Some r \<and> dynamicEntry r) then None else m q)"
proof (induction ps arbitrary: m)
  case Nil
  show ?case by simp
next
  case (Cons p ps)
  have "flushLoop (p # ps) m q = flushLoop ps (flushOne p m) q" by simp
  also have "\<dots> = (if q \<in> set ps \<and> q \<noteq> '''' \<and> (\<exists>r. flushOne p m q = Some r \<and> dynamicEntry r)
                     then None else flushOne p m q)"
    by (rule Cons.IH)
  also have "\<dots> = (if q \<in> set (p # ps) \<and> q \<noteq> '''' \<and> (\<exists>r. m q = Some r \<and> dynamicEntry r)
                     then None else m q)"
  proof (cases "q = p")
    case True
    then show ?thesis by (simp add: flushOne_apply) blast
  next
    case False
    then show ?thesis by (simp add: flushOne_apply) blast
  qed
  finally show ?case .
qed

text \<open>
  Claim C7: the flush deletes the exact-match entry of a path only if the path is recorded
  in the ledger and the entry is still marked generated (\<^verbatim>\<open>dynamicEntry = true\<close>); an
  entry that a caller's exact registration has since overwritten (\<^verbatim>\<open>dynamicEntry = false\<close>)
  is never deleted; and after the flush the ledger is empty. The first conjunct says exactly
  which entries go: those of the non-empty ledger paths that are marked generated.
\<close>

theorem flushDynamicRoutes_spec:
  "exactMatchTable (flushDynamicRoutes s) p =
     (if p \<in> set (dynamicEntries s) \<and> p \<noteq> '''' \<and>
         (\<exists>r. exactMatchTable s p = Some r \<and> dynamicEntry r)
      then None else exactMatchTable s p)
   \<and> (\<forall>r. exactMatchTable s p = Some r \<and> \<not> dynamicEntry r
          \<longrightarrow> exactMatchTable (flushDynamicRoutes s) p = Some r)
   \<and> dynamicEntries (flushDynamicRoutes s) = []
   \<and> prefixRoutesTable (flushDynamicRoutes s) = prefixRoutesTable s"
  by (simp add: flushDynamicRoutes_def flushLoop_spec)

theorem flushDynamicRoutes_spec_witness:
  "exactMatchTable (flushDynamicRoutes flushExample) ''/a''
     = Some \<lparr>path = ''/a'', matchType = ''exact'', destination = ''svc'', dynamicEntry = False\<rparr>
   \<and> exactMatchTable (flushDynamicRoutes flushExample) ''/b'' = None
   \<and> dynamicEntries (flushDynamicRoutes flushExample) = []"
proof -
  have a: "exactMatchTable flushExample ''/a''
     = Some \<lparr>path = ''/a'', matchType = ''exact'', destination = ''svc'', dynamicEntry = False\<rparr>"
    by code_simp
  have b: "exactMatchTable flushExample ''/b''
     = Some \<lparr>path = ''/b'', matchType = ''exact'', destination = ''default-service'',
              dynamicEntry = True\<rparr>"
    by code_simp
  have l: "''/b'' \<in> set (dynamicEntries flushExample)"
    by code_simp
  show ?thesis
    using flushDynamicRoutes_spec[of flushExample "''/a''"]
      flushDynamicRoutes_spec[of flushExample "''/b''"] a b l
    by simp
qed

section \<open>Lookups\<close>

lemma scanPrefixes_None: "scanPrefixes p t = None \<longleftrightarrow> (\<forall>r\<in>set t. \<not> prefixMatch p r)"
  by (induction t) auto

lemma RouteLookup_caches:
  "\<exists>r. exactMatchTable (snd (RouteLookup p s)) p = Some r
       \<and> destination r = fst (fst (RouteLookup p s))"
  by (simp add: RouteLookup_def createDynamicRoute_def split: option.split)

lemma RouteLookup_hit:
  "exactMatchTable s p = Some r \<Longrightarrow> RouteLookup p s = ((destination r, None), s)"
  by (simp add: RouteLookup_def)

lemma RouteLookup_keeps_entries:
  "exactMatchTable s p = Some r \<Longrightarrow> exactMatchTable (snd (RouteLookup q s)) p = Some r"
  by (cases "q = p") (auto simp add: RouteLookup_def createDynamicRoute_def split: option.split)

text \<open>
  Claim C6: for every path \<open>p\<close> that has no exact-match entry and that no record of the
  prefix table matches, \<^verbatim>\<open>RouteLookup(p)\<close> returns \<^verbatim>\<open>"default-service"\<close> with a nil error,
  and caches the outcome as it caches a prefix hit: a generated exact-match entry is
  created at \<open>p\<close> and \<open>p\<close> is appended to the ledger.
\<close>

theorem RouteLookup_default:
  assumes "exactMatchTable s p = None"
    and "\<forall>r\<in>set (prefixRoutesTable s). \<not> prefixMatch p r"
  shows "RouteLookup p s =
    ((''default-service'', None),
     s\<lparr>dynamicEntries := dynamicEntries s @ [p],
       exactMatchTable := (exactMatchTable s)
         (p \<mapsto> \<lparr>path = p, matchType = ''exact'', destination = ''default-service'',
                dynamicEntry = True\<rparr>)\<rparr>)"
proof -
  from assms(2) have "scanPrefixes p (prefixRoutesTable s) = None"
    by (simp add: scanPrefixes_None)
  with assms(1) show ?thesis
    by (simp add: RouteLookup_def createDynamicRoute_def)
qed

theorem RouteLookup_default_witness:
  "fst (RouteLookup ''/api/3'' exampleTables) = (''default-service'', None)
   \<and> exactMatchTable (snd (RouteLookup ''/api/3'' exampleTables)) ''/api/3''
       = Some \<lparr>path = ''/api/3'', matchType = ''exact'', destination = ''default-service'',
                dynamicEntry = True\<rparr>
   \<and> dynamicEntries (snd (RouteLookup ''/api/3'' exampleTables))
       = dynamicEntries exampleTables @ [''/api/3'']"
proof -
  have h1: "exactMatchTable exampleTables ''/api/3'' = None"
    by code_simp
  have h2: "\<forall>r\<in>set (prefixRoutesTable exampleTables). \<not> prefixMatch ''/api/3'' r"
    by code_simp
  show ?thesis
    using RouteLookup_default[OF h1 h2] by simp
qed

section \<open>Repeating a lookup\<close>

lemma step_leaves_entry:
  "leavesLookupOf p x \<Longrightarrow> exactMatchTable s p = Some r
     \<Longrightarrow> exactMatchTable (step srt x s) p = Some r"
  by (cases x) (simp_all add: RouteLookup_keeps_entries AddRoute_def)

lemma run_leaves_entry:
  "list_all (leavesLookupOf p) ops \<Longrightarrow> exactMatchTable s p = Some r
     \<Longrightarrow> exactMatchTable (run srt ops s) p = Some r"
  by (induction ops arbitrary: s) (simp_all add: step_leaves_entry)

text \<open>
  Claim C5, as amended: two calls \<^verbatim>\<open>RouteLookup(p)\<close> on the same path return the same
  destination (and the same nil error), \<^verbatim>\<open>"default-service"\<close> included, when the calls
  between them are lookups (of any path) and registrations of exact routes for paths
  other than \<open>p\<close>: no \<^verbatim>\<open>AddRoute\<close> of a prefix route and no \<^verbatim>\<open>AddRoute\<close> of an exact
  route for \<open>p\<close> itself stands between them. This holds from any tables \<open>s\<close>.
\<close>

theorem RouteLookup_repeat:
  assumes "list_all (leavesLookupOf p) ops"
  shows "fst (RouteLookup p (run srt ops (snd (RouteLookup p s)))) = fst (RouteLookup p s)"
proof -
  obtain r where r: "exactMatchTable (snd (RouteLookup p s)) p = Some r"
    and d: "destination r = fst (fst (RouteLookup p s))"
    using RouteLookup_caches by blast
  have e: "snd (fst (RouteLookup p s)) = None"
    by (simp add: RouteLookup_def split: option.split)
  from run_leaves_entry[OF assms r]
  have "RouteLookup p (run srt ops (snd (RouteLookup p s)))
          = ((destination r, None), run srt ops (snd (RouteLookup p s)))"
    by (rule RouteLookup_hit)
  then show ?thesis using d e by (simp add: prod_eq_iff)
qed

theorem RouteLookup_repeat_witness:
  "fst (RouteLookup ''/api/1/2'' (run insertionSorter
         [RouteLookupOp ''/api/3'', AddRouteOp ''/api/9'' ''exact'' ''service-9'',
          RouteLookupOp ''/api/1/2'']
         (snd (RouteLookup ''/api/1/2'' exampleTables))))
     = (''service-5'', None)"
proof -
  have h: "list_all (leavesLookupOf ''/api/1/2'')
         [RouteLookupOp ''/api/3'', AddRouteOp ''/api/9'' ''exact'' ''service-9'',
          RouteLookupOp ''/api/1/2'']"
    by simp
  have v: "fst (RouteLookup ''/api/1/2'' exampleTables) = (''service-5'', None)"
    by code_simp
  show ?thesis
    using RouteLookup_repeat[OF h, of insertionSorter exampleTables] v by simp
qed

text \<open>
  Claim C5 as stated fails: with no prefix registration in between, registering an exact
  route for the looked-up path changes what the second lookup returns
  (\<^verbatim>\<open>"default-service"\<close> first, \<^verbatim>\<open>"svc"\<close> after).
\<close>

theorem RouteLookup_repeat_counterexample:
  "\<not> (fst (RouteLookup ''/x'' (run insertionSorter [AddRouteOp ''/x'' ''exact'' ''svc'']
                                 (snd (RouteLookup ''/x'' init))))
       = fst (RouteLookup ''/x'' init))"
  by code_simp

section \<open>The prefix table\<close>

lemma findPath_None: "findPath p t = None \<longleftrightarrow> p \<notin> set (map path t)"
  by (induction t) auto

lemma findPath_Some: "findPath p t = Some i \<Longrightarrow> i < length t \<and> path (t ! i) = p"
  by (induction t arbitrary: i) (auto split: if_splits)

lemma map_path_update:
  "findPath p t = Some i \<Longrightarrow> map path (t[i := (t ! i)\<lparr>destination := d\<rparr>]) = map path t"
  by (simp add: map_update findPath_Some list_update_same_conv)

lemma sorted_longerFirst_paths:
  "sorted_wrt longerFirst t = sorted_wrt (\<lambda>a b. length b \<le> length a) (map path t)"
  by (induction t) (auto simp add: longerFirst_def)

lemma tableInv_paths: "map path t = map path u \<Longrightarrow> tableInv t = tableInv u"
  by (simp add: tableInv_def sorted_longerFirst_paths)

lemma count_list_replicate: "count_list (replicate n x) y = (if x = y then n else 0)"
  by (induction n) auto

lemma sorted_replicate: "sorted_wrt (\<lambda>a b. length b \<le> length a) (replicate n x)"
  by (induction n) auto

lemma tableInv_init: "tableInv (prefixRoutesTable init)"
  by (simp add: tableInv_def init_def zeroRoute_def sorted_longerFirst_paths
      count_list_replicate sorted_replicate)

lemma count_list_mset: "count_list xs x = count (mset xs) x"
  by (induction xs) auto

lemma tableInv_insert:
  assumes ok: "sorter_ok srt" and inv: "tableInv t" and new: "findPath p t = None"
  shows "tableInv (sortSlice srt (t @ [\<lparr>path = p, matchType = mt, destination = d, dynamicEntry = False\<rparr>]))"
    (is "tableInv (sortSlice srt (t @ [?r]))")
proof -
  have absent: "count_list (map path t) p = 0"
    using new by (simp add: findPath_None)
  have "p \<noteq> ''''"
    using inv absent by (auto simp add: tableInv_def)
  have c: "count_list (map path (sortSlice srt (t @ [?r]))) q
             = count_list (map path t) q + (if q = p then 1 else 0)" for q
    by (simp add: count_list_mset sortSlice_mset[OF ok])
  show ?thesis
    unfolding tableInv_def
    using inv absent \<open>p \<noteq> ''''\<close> by (simp add: c sortSlice_sorted[OF ok] tableInv_def)
qed

lemma AddRoute_tableInv:
  assumes "sorter_ok srt" and "tableInv (prefixRoutesTable s)"
  shows "tableInv (prefixRoutesTable (snd (AddRoute srt p mt d s)))"
proof (cases "mt = ''exact''")
  case True
  with assms(2) show ?thesis by (simp add: AddRoute_def)
next
  case False
  show ?thesis
  proof (cases "findPath p (prefixRoutesTable s)")
    case None
    with False tableInv_insert[OF assms None] show ?thesis
      by (simp add: AddRoute_def)
  next
    case (Some i)
    with False assms(2) tableInv_paths[OF map_path_update[OF Some]] show ?thesis
      by (simp add: AddRoute_def flushDynamicRoutes_def)
  qed
qed

lemma RouteLookup_prefixRoutesTable:
  "prefixRoutesTable (snd (RouteLookup p s)) = prefixRoutesTable s"
  by (simp add: RouteLookup_def createDynamicRoute_def split: option.split)

lemma step_tableInv:
  "sorter_ok srt \<Longrightarrow> tableInv (prefixRoutesTable s) \<Longrightarrow> tableInv (prefixRoutesTable (step srt x s))"
  by (cases x) (simp_all add: AddRoute_tableInv RouteLookup_prefixRoutesTable)

lemma run_tableInv:
  "sorter_ok srt \<Longrightarrow> tableInv (prefixRoutesTable s) \<Longrightarrow> tableInv (prefixRoutesTable (run srt ops s))"
  by (induction ops arbitrary: s) (simp_all add: step_tableInv)

lemma reachable_tableInv: "sorter_ok srt \<Longrightarrow> tableInv (prefixRoutesTable (run srt ops init))"
  by (simp add: run_tableInv tableInv_init)

lemma in_place:
  assumes "p \<in> set (map path (prefixRoutesTable s))" and "mt \<noteq> ''exact''"
  shows "\<exists>i<length (prefixRoutesTable s). path (prefixRoutesTable s ! i) = p \<and>
           prefixRoutesTable (step srt (AddRouteOp p mt d) s)
             = (prefixRoutesTable s)[i := (prefixRoutesTable s ! i)\<lparr>destination := d\<rparr>]"
proof -
  from assms(1) obtain i where i: "findPath p (prefixRoutesTable s) = Some i"
    using findPath_None[of p "prefixRoutesTable s"] by (cases "findPath p (prefixRoutesTable s)") auto
  with assms(2) have "prefixRoutesTable (step srt (AddRouteOp p mt d) s)
             = (prefixRoutesTable s)[i := (prefixRoutesTable s ! i)\<lparr>destination := d\<rparr>]"
    by (simp add: AddRoute_def flushDynamicRoutes_def)
  with findPath_Some[OF i] show ?thesis by blast
qed

text \<open>
  Claim C8, as amended: after every sequence of \<^verbatim>\<open>AddRoute\<close> and \<^verbatim>\<open>RouteLookup\<close> calls
  from the initial tables, the records of the prefix table are ordered non-increasing by
  path length and the table holds at most one record for each non-empty path; besides
  those it always holds the ten empty-path records that \<^verbatim>\<open>init()\<close> allocated. Registering
  a prefix path that the table already holds (under any \<^verbatim>\<open>matchType\<close> other than
  \<^verbatim>\<open>"exact"\<close>) changes the destination of one record in place and appends nothing.
\<close>

theorem prefix_table_invariant:
  fixes srt ops
  defines "t \<equiv> prefixRoutesTable (run srt ops init)"
  assumes "sorter_ok srt"
  shows "sorted_wrt longerFirst t
       \<and> (\<forall>p. p \<noteq> '''' \<longrightarrow> count_list (map path t) p \<le> 1)
       \<and> count_list (map path t) '''' = 10
       \<and> (\<forall>p mt d. p \<in> set (map path t) \<and> mt \<noteq> ''exact'' \<longrightarrow>
            (\<exists>i<length t. path (t ! i) = p \<and>
               prefixRoutesTable (step srt (AddRouteOp p mt d) (run srt ops init))
                 = t[i := (t ! i)\<lparr>destination := d\<rparr>]))"
proof -
  have "tableInv t"
    unfolding t_def by (rule reachable_tableInv[OF assms(2)])
  then show ?thesis
    unfolding t_def using in_place[of _ "run srt ops init"] by (simp add: tableInv_def)
qed

theorem prefix_table_invariant_witness:
  "sorted_wrt longerFirst (prefixRoutesTable (run insertionSorter (exampleAdds @ exampleLookups) init))
   \<and> map path (prefixRoutesTable (run insertionSorter (exampleAdds @ exampleLookups) init))
       = [''/api/2/1/1'', ''/api/2/1'', ''/api/2/'', ''/api/1'',
          '''', '''', '''', '''', '''', '''', '''', '''', '''', '''']
   \<and> count_list (map path (prefixRoutesTable (run insertionSorter (exampleAdds @ exampleLookups) init)))
         ''/api/2/'' \<le> 1
   \<and> count_list (map path (prefixRoutesTable (run insertionSorter (exampleAdds @ exampleLookups) init)))
         '''' = 10
   \<and> map path (prefixRoutesTable (step insertionSorter (AddRouteOp ''/api/2/'' ''prefix'' ''service-8'')
                   (run insertionSorter (exampleAdds @ exampleLookups) init)))
       = map path (prefixRoutesTable (run insertionSorter (exampleAdds @ exampleLookups) init))"
proof -
  let ?s = "run insertionSorter (exampleAdds @ exampleLookups) init"
  let ?t = "prefixRoutesTable ?s"
  note inv = prefix_table_invariant[OF insertionSorter_ok, of "exampleAdds @ exampleLookups"]
  have v: "map path ?t
       = [''/api/2/1/1'', ''/api/2/1'', ''/api/2/'', ''/api/1'',
          '''', '''', '''', '''', '''', '''', '''', '''', '''', '''']"
    by code_simp
  have n: "''/api/2/'' \<noteq> ''''" by simp
  have m: "''/api/2/'' \<in> set (map path ?t) \<and> ''prefix'' \<noteq> ''exact''"
    by (simp add: v)
  have a: "sorted_wrt longerFirst ?t"
    by (rule inv[THEN conjunct1])
  have b: "count_list (map path ?t) ''/api/2/'' \<le> 1"
    by (rule inv[THEN conjunct2, THEN conjunct1, rule_format, OF n])
  have c: "count_list (map path ?t) '''' = 10"
    by (rule inv[THEN conjunct2, THEN conjunct2, THEN conjunct1])
  from inv[THEN conjunct2, THEN conjunct2, THEN conjunct2, rule_format, OF m]
  obtain i where i: "i < length ?t"
    and u: "prefixRoutesTable (step insertionSorter (AddRouteOp ''/api/2/'' ''prefix'' ''service-8'') ?s)
              = ?t[i := (?t ! i)\<lparr>destination := ''service-8''\<rparr>]"
    by blast
  from i have "map path (?t[i := (?t ! i)\<lparr>destination := ''service-8''\<rparr>]) = map path ?t"
    by (simp add: map_update list_update_same_conv)
  with u have w: "map path (prefixRoutesTable
        (step insertionSorter (AddRouteOp ''/api/2/'' ''prefix'' ''service-8'') ?s)) = map path ?t"
    by (simp only:)
  from a v b c w show ?thesis by (intro conjI)
qed

text \<open>
  Claim C8 as stated fails for the empty path: once it is registered as a prefix route the
  table holds ten records for that registered path, the first of them carrying the
  destination, because \<^verbatim>\<open>make([]route, 10)\<close> fills the table with ten zero records.
\<close>

theorem prefix_table_one_record_counterexample:
  "\<not> count_list (map path (prefixRoutesTable (run insertionSorter [AddRouteOp '''' ''prefix'' ''d''] init))) ''''
       \<le> 1"
  by code_simp

section \<open>Longest prefix\<close>

lemma scanPrefixes_first_longest:
  "sorted_wrt longerFirst t \<Longrightarrow> scanPrefixes p t = Some r \<Longrightarrow>
     r \<in> set t \<and> prefixMatch p r \<and>
     (\<forall>r'\<in>set t. prefixMatch p r' \<longrightarrow> length (path r') \<le> length (path r))"
proof (induction t)
  case Nil
  then show ?case by simp
next
  case (Cons a t)
  show ?case
  proof (cases "prefixMatch p a")
    case True
    with Cons.prems show ?thesis by (auto simp add: longerFirst_def)
  next
    case False
    with Cons show ?thesis by auto
  qed
qed

lemma same_path_same_record:
  "count_list (map path t) q \<le> 1 \<Longrightarrow> r \<in> set t \<Longrightarrow> r' \<in> set t
     \<Longrightarrow> path r = q \<Longrightarrow> path r' = q \<Longrightarrow> r = r'"
proof (induction t)
  case Nil
  then show ?case by simp
next
  case (Cons a t)
  show ?case
  proof (cases "path a = q")
    case True
    with Cons.prems(1) have "count_list (map path t) q = 0" by simp
    then have "q \<notin> set (map path t)" by (simp add: count_list_0_iff)
    then have "path x \<noteq> q" if "x \<in> set t" for x
      using that by auto
    with Cons.prems(2-5) show ?thesis by auto
  next
    case False
    with Cons show ?thesis by auto
  qed
qed

lemma prefixMatch_same_length:
  assumes "prefixMatch p r" and "prefixMatch p r'" and "length (path r) = length (path r')"
  shows "path r = path r' \<and> path r \<noteq> ''''"
proof -
  from assms(1) have a: "path r = take (length (path r)) p" and n: "length (path r) \<noteq> 0"
    unfolding prefixMatch_def by blast+
  from assms(2) have b: "path r' = take (length (path r')) p"
    unfolding prefixMatch_def by blast
  from a b assms(3) have "path r = path r'" by metis
  moreover from n have "path r \<noteq> ''''" by auto
  ultimately show ?thesis by blast
qed

text \<open>
  Claim C3: in the tables reached by any sequence of calls, for every path \<open>p\<close> that has no
  entry in the exact-match table and that some record of the prefix table matches (one
  match is enough, so two or more are covered), exactly one matching record has the
  greatest path length, and \<^verbatim>\<open>RouteLookup(p)\<close> returns the destination of that record
  with a nil error (and caches it). A record matches as \<open>prefixMatch\<close> says:
  \<^verbatim>\<open>len(p) >= len(rp) > 0\<close> and \<^verbatim>\<open>rp == p[0:len(rp)]\<close>.
\<close>

theorem longest_prefix_wins:
  fixes srt ops p r1
  defines "s \<equiv> run srt ops init"
  defines "t \<equiv> prefixRoutesTable (run srt ops init)"
  assumes ok: "sorter_ok srt"
    and miss: "exactMatchTable s p = None"
    and r1: "r1 \<in> set t" "prefixMatch p r1"
  shows "(\<exists>!r. r \<in> set t \<and> prefixMatch p r \<and>
               (\<forall>r'\<in>set t. prefixMatch p r' \<longrightarrow> length (path r') \<le> length (path r)))
       \<and> (\<forall>r\<in>set t. prefixMatch p r \<and>
               (\<forall>r'\<in>set t. prefixMatch p r' \<longrightarrow> length (path r') \<le> length (path r))
            \<longrightarrow> RouteLookup p s = ((destination r, None), createDynamicRoute p (destination r) s))"
proof -
  have inv: "tableInv t"
    unfolding t_def by (rule reachable_tableInv[OF ok])
  then have srt: "sorted_wrt longerFirst t"
    by (simp add: tableInv_def)
  from r1 have "scanPrefixes p t \<noteq> None"
    unfolding scanPrefixes_None by blast
  then obtain r0 where r0: "scanPrefixes p t = Some r0"
    by blast
  from scanPrefixes_first_longest[OF srt r0]
  have in0: "r0 \<in> set t" and m0: "prefixMatch p r0"
    and max0: "\<forall>r'\<in>set t. prefixMatch p r' \<longrightarrow> length (path r') \<le> length (path r0)"
    by blast+
  have uniq: "r = r0"
    if a: "r \<in> set t" and b: "prefixMatch p r"
      and c: "\<forall>r'\<in>set t. prefixMatch p r' \<longrightarrow> length (path r') \<le> length (path r)" for r
  proof -
    have "length (path r) \<le> length (path r0)"
      using max0 a b by blast
    moreover have "length (path r0) \<le> length (path r)"
      using c in0 m0 by blast
    ultimately have e: "length (path r) = length (path r0)"
      by simp
    from prefixMatch_same_length[OF b m0 e]
    have pe: "path r0 = path r" and ne: "path r \<noteq> ''''"
      by auto
    from inv ne have "count_list (map path t) (path r) \<le> 1"
      by (simp add: tableInv_def)
    from same_path_same_record[OF this a in0 refl pe] show ?thesis .
  qed
  have look: "RouteLookup p s = ((destination r0, None), createDynamicRoute p (destination r0) s)"
    using miss r0 unfolding s_def t_def by (simp add: RouteLookup_def)
  have "\<exists>!r. r \<in> set t \<and> prefixMatch p r \<and>
               (\<forall>r'\<in>set t. prefixMatch p r' \<longrightarrow> length (path r') \<le> length (path r))"
  proof (rule ex1I[of _ r0])
    show "r0 \<in> set t \<and> prefixMatch p r0 \<and>
               (\<forall>r'\<in>set t. prefixMatch p r' \<longrightarrow> length (path r') \<le> length (path r0))"
      using in0 m0 max0 by blast
  next
    fix r
    assume "r \<in> set t \<and> prefixMatch p r \<and>
               (\<forall>r'\<in>set t. prefixMatch p r' \<longrightarrow> length (path r') \<le> length (path r))"
    then show "r = r0" using uniq by blast
  qed
  moreover have "\<forall>r\<in>set t. prefixMatch p r \<and>
               (\<forall>r'\<in>set t. prefixMatch p r' \<longrightarrow> length (path r') \<le> length (path r))
            \<longrightarrow> RouteLookup p s = ((destination r, None), createDynamicRoute p (destination r) s)"
  proof (intro ballI impI)
    fix r
    assume "r \<in> set t"
      and "prefixMatch p r \<and>
               (\<forall>r'\<in>set t. prefixMatch p r' \<longrightarrow> length (path r') \<le> length (path r))"
    then have "r = r0" using uniq by blast
    with look show "RouteLookup p s = ((destination r, None), createDynamicRoute p (destination r) s)"
      by simp
  qed
  ultimately show ?thesis by (rule conjI)
qed

theorem longest_prefix_wins_witness:
  "\<lparr>path = ''/api/2/1'', matchType = ''prefix'', destination = ''service-3'', dynamicEntry = False\<rparr>
      \<in> set (prefixRoutesTable exampleTables)
   \<and> prefixMatch ''/api/2/1/2''
        \<lparr>path = ''/api/2/1'', matchType = ''prefix'', destination = ''service-3'', dynamicEntry = False\<rparr>
   \<and> \<lparr>path = ''/api/2/'', matchType = ''prefix'', destination = ''service-4'', dynamicEntry = False\<rparr>
      \<in> set (prefixRoutesTable exampleTables)
   \<and> prefixMatch ''/api/2/1/2''
        \<lparr>path = ''/api/2/'', matchType = ''prefix'', destination = ''service-4'', dynamicEntry = False\<rparr>
   \<and> fst (RouteLookup ''/api/2/1/2'' exampleTables) = (''service-3'', None)"
proof -
  let ?t = "prefixRoutesTable (run insertionSorter exampleAdds init)"
  let ?r = "\<lparr>path = ''/api/2/1'', matchType = ''prefix'', destination = ''service-3'', dynamicEntry = False\<rparr>"
  let ?r2 = "\<lparr>path = ''/api/2/'', matchType = ''prefix'', destination = ''service-4'', dynamicEntry = False\<rparr>"
  have miss: "exactMatchTable (run insertionSorter exampleAdds init) ''/api/2/1/2'' = None"
    by code_simp
  have r: "?r \<in> set ?t"
    by code_simp
  have m: "prefixMatch ''/api/2/1/2'' ?r"
    by code_simp
  have r2: "?r2 \<in> set ?t"
    by code_simp
  have m2: "prefixMatch ''/api/2/1/2'' ?r2"
    by code_simp
  have top: "\<forall>r'\<in>set ?t. prefixMatch ''/api/2/1/2'' r' \<longrightarrow> length (path r') \<le> length (path ?r)"
    by code_simp
  from longest_prefix_wins[OF insertionSorter_ok miss r2 m2]
  have "\<forall>r\<in>set ?t. prefixMatch ''/api/2/1/2'' r \<and>
               (\<forall>r'\<in>set ?t. prefixMatch ''/api/2/1/2'' r' \<longrightarrow> length (path r') \<le> length (path r))
            \<longrightarrow> RouteLookup ''/api/2/1/2'' (run insertionSorter exampleAdds init)
                 = ((destination r, None),
                    createDynamicRoute ''/api/2/1/2'' (destination r) (run insertionSorter exampleAdds init))"
    by (rule conjunct2)
  with r m top
  have "RouteLookup ''/api/2/1/2'' (run insertionSorter exampleAdds init)
                 = ((destination ?r, None),
                    createDynamicRoute ''/api/2/1/2'' (destination ?r) (run insertionSorter exampleAdds init))"
    by blast
  then have "fst (RouteLookup ''/api/2/1/2'' (run insertionSorter exampleAdds init)) = (''service-3'', None)"
    by simp
  with r m r2 m2 show ?thesis
    by (simp only: exampleTables_def simp_thms)
qed

section \<open>An exact route and a prefix route for the same path\<close>

lemma AddRoute_exact:
  "AddRoute srt p ''exact'' d s =
     (None, s\<lparr>exactMatchTable := (exactMatchTable s)
        (p \<mapsto> \<lparr>path = p, matchType = ''exact'', destination = d, dynamicEntry = False\<rparr>)\<rparr>)"
  by (simp add: AddRoute_def)

lemma AddRoute_prefix_keeps_static:
  assumes "mt \<noteq> ''exact''" and "exactMatchTable s q = Some r" and "\<not> dynamicEntry r"
  shows "exactMatchTable (snd (AddRoute srt p mt d s)) q = Some r"
proof (cases "findPath p (prefixRoutesTable s)")
  case None
  with assms show ?thesis by (simp add: AddRoute_def)
next
  case (Some i)
  with assms show ?thesis
    by (simp add: AddRoute_def flushDynamicRoutes_def flushLoop_spec)
qed

lemma AddRoute_prefix_registers:
  assumes "sorter_ok srt" and "mt \<noteq> ''exact''"
  shows "\<exists>r\<in>set (prefixRoutesTable (snd (AddRoute srt p mt d s))). path r = p \<and> destination r = d"
proof (cases "findPath p (prefixRoutesTable s)")
  case None
  with assms show ?thesis
    by (simp add: AddRoute_def sortSlice_set)
next
  case (Some i)
  let ?t = "prefixRoutesTable s"
  from findPath_Some[OF Some] have i: "i < length ?t" and p: "path (?t ! i) = p"
    by simp_all
  let ?x = "(?t ! i)\<lparr>destination := d\<rparr>"
  from i have "?x \<in> set (?t[i := ?x])"
    by (simp add: set_update_memI)
  moreover have "path ?x = p" "destination ?x = d"
    using p by simp_all
  moreover have "prefixRoutesTable (snd (AddRoute srt p mt d s)) = ?t[i := ?x]"
    using Some assms(2) by (simp add: AddRoute_def flushDynamicRoutes_def)
  ultimately show ?thesis by metis
qed

text \<open>
  Claim C4: for every path \<open>p\<close> and from any tables, \<^verbatim>\<open>AddRoute(p, "exact", d1)\<close> and
  \<^verbatim>\<open>AddRoute(p, "prefix", d2)\<close> in either order leave two coexisting routes: the exact-match
  table holds the caller's exact route to \<open>d1\<close> at \<open>p\<close>, the prefix table holds a record
  for \<open>p\<close> with destination \<open>d2\<close>, the second call leaves what the first one stored
  untouched, and a following \<^verbatim>\<open>RouteLookup(p)\<close> returns \<open>d1\<close> with a nil error.
\<close>

theorem exact_and_prefix_coexist:
  fixes srt p d1 d2 s e s1 s2 t1 t2
  defines "e \<equiv> \<lparr>path = p, matchType = ''exact'', destination = d1, dynamicEntry = False\<rparr>"
  defines "s1 \<equiv> snd (AddRoute srt p ''exact'' d1 s)"
  defines "s2 \<equiv> snd (AddRoute srt p ''prefix'' d2 (snd (AddRoute srt p ''exact'' d1 s)))"
  defines "t1 \<equiv> snd (AddRoute srt p ''prefix'' d2 s)"
  defines "t2 \<equiv> snd (AddRoute srt p ''exact'' d1 (snd (AddRoute srt p ''prefix'' d2 s)))"
  assumes ok: "sorter_ok srt"
  shows "exactMatchTable s1 p = Some e
       \<and> exactMatchTable s2 p = Some e
       \<and> (\<exists>r\<in>set (prefixRoutesTable s2). path r = p \<and> destination r = d2)
       \<and> RouteLookup p s2 = ((d1, None), s2)
       \<and> (\<exists>r\<in>set (prefixRoutesTable t1). path r = p \<and> destination r = d2)
       \<and> prefixRoutesTable t2 = prefixRoutesTable t1
       \<and> exactMatchTable t2 p = Some e
       \<and> RouteLookup p t2 = ((d1, None), t2)"
proof -
  have ne: "''prefix'' \<noteq> ''exact''" by simp
  have a: "exactMatchTable s1 p = Some e"
    by (simp add: s1_def e_def AddRoute_exact)
  have "\<not> dynamicEntry e" by (simp add: e_def)
  from AddRoute_prefix_keeps_static[OF ne a[unfolded s1_def] this]
  have b: "exactMatchTable s2 p = Some e"
    by (simp add: s2_def)
  have c: "\<exists>r\<in>set (prefixRoutesTable s2). path r = p \<and> destination r = d2"
    unfolding s2_def by (rule AddRoute_prefix_registers[OF ok ne])
  have d: "RouteLookup p s2 = ((d1, None), s2)"
    using RouteLookup_hit[OF b] by (simp add: e_def)
  have f: "\<exists>r\<in>set (prefixRoutesTable t1). path r = p \<and> destination r = d2"
    unfolding t1_def by (rule AddRoute_prefix_registers[OF ok ne])
  have g: "prefixRoutesTable t2 = prefixRoutesTable t1"
    by (simp add: t2_def t1_def AddRoute_exact)
  have h: "exactMatchTable t2 p = Some e"
    by (simp add: t2_def e_def AddRoute_exact)
  have k: "RouteLookup p t2 = ((d1, None), t2)"
    using RouteLookup_hit[OF h] by (simp add: e_def)
  from a b c d f g h k show ?thesis by blast
qed

theorem exact_and_prefix_coexist_witness:
  "fst (RouteLookup ''/api/1''
         (run insertionSorter
            [AddRouteOp ''/api/1'' ''exact'' ''service-1'', AddRouteOp ''/api/1'' ''prefix'' ''service-5'']
            init)) = (''service-1'', None)
   \<and> fst (RouteLookup ''/api/1''
         (run insertionSorter
            [AddRouteOp ''/api/1'' ''prefix'' ''service-5'', AddRouteOp ''/api/1'' ''exact'' ''service-1'']
            init)) = (''service-1'', None)
   \<and> fst (RouteLookup ''/api/1/2''
         (run insertionSorter
            [AddRouteOp ''/api/1'' ''exact'' ''service-1'', AddRouteOp ''/api/1'' ''prefix'' ''service-5'']
            init)) = (''service-5'', None)"
proof -
  have v: "fst (RouteLookup ''/api/1/2''
         (run insertionSorter
            [AddRouteOp ''/api/1'' ''exact'' ''service-1'', AddRouteOp ''/api/1'' ''prefix'' ''service-5'']
            init)) = (''service-5'', None)"
    by code_simp
  from exact_and_prefix_coexist[OF insertionSorter_ok,
      where p = "''/api/1''" and ?d1.0 = "''service-1''" and ?d2.0 = "''service-5''" and s = init] v
  show ?thesis by simp
qed

section \<open>The worked example\<close>

lemma sorted_unique:
  assumes "sorted_wrt longerFirst xs" and "sorted_wrt longerFirst ys" and "mset xs = mset ys"
    and "\<forall>a\<in>set xs. \<forall>b\<in>set xs. length (path a) = length (path b) \<longrightarrow> a = b"
  shows "xs = ys"
  using assms
proof (induction xs arbitrary: ys)
  case Nil
  then show ?case by simp
next
  case (Cons x xs)
  from Cons.prems(3) have "ys \<noteq> []" by auto
  then obtain y ys' where ys: "ys = y # ys'" by (cases ys) auto
  have sets: "set (x # xs) = set (y # ys')"
    using Cons.prems(3) ys mset_eq_setD by blast
  have "length (path x) \<le> length (path y)"
  proof (cases "x = y")
    case True then show ?thesis by simp
  next
    case False
    with sets have "x \<in> set ys'" by auto
    with Cons.prems(2) ys show ?thesis by (auto simp add: longerFirst_def)
  qed
  moreover have "length (path y) \<le> length (path x)"
  proof (cases "x = y")
    case True then show ?thesis by simp
  next
    case False
    with sets have "y \<in> set xs" by auto
    with Cons.prems(1) show ?thesis by (auto simp add: longerFirst_def)
  qed
  ultimately have "length (path x) = length (path y)" by simp
  moreover have "y \<in> set (x # xs)" using sets by auto
  ultimately have xy: "x = y"
    using Cons.prems(4) by auto
  with Cons.prems(3) ys have m: "mset xs = mset ys'" by simp
  have "xs = ys'"
    using Cons.IH[OF _ _ m] Cons.prems(1,2,4) ys by auto
  with xy ys show ?case by simp
qed

lemma untied_iff:
  "untied t \<longleftrightarrow> (\<forall>a\<in>set t. \<forall>b\<in>set t. length (path a) = length (path b) \<longrightarrow> a = b)"
  by (auto simp add: untied_def list_all_iff)

lemma sortSlice_untied:
  assumes "sorter_ok srt" and "sorter_ok srt'" and "untied t"
  shows "sortSlice srt t = sortSlice srt' t"
proof (rule sorted_unique)
  show "sorted_wrt longerFirst (sortSlice srt t)" by (rule sortSlice_sorted[OF assms(1)])
  show "sorted_wrt longerFirst (sortSlice srt' t)" by (rule sortSlice_sorted[OF assms(2)])
  show "mset (sortSlice srt t) = mset (sortSlice srt' t)"
    by (simp add: sortSlice_mset assms(1,2))
  show "\<forall>a\<in>set (sortSlice srt t). \<forall>b\<in>set (sortSlice srt t).
          length (path a) = length (path b) \<longrightarrow> a = b"
    using assms(3) by (simp add: sortSlice_set[OF assms(1)] untied_iff)
qed

lemma AddRoute_untied:
  assumes "sorter_ok srt"
    and "mt = ''exact'' \<or> findPath p (prefixRoutesTable s) \<noteq> None \<or>
         untied (prefixRoutesTable s @
                 [\<lparr>path = p, matchType = mt, destination = d, dynamicEntry = False\<rparr>])"
  shows "AddRoute srt p mt d s = AddRoute insertionSorter p mt d s"
proof (cases "mt = ''exact'' \<or> findPath p (prefixRoutesTable s) \<noteq> None")
  case True
  then show ?thesis by (auto simp add: AddRoute_def Let_def)
next
  case False
  with assms(2) have "untied (prefixRoutesTable s @
                 [\<lparr>path = p, matchType = mt, destination = d, dynamicEntry = False\<rparr>])"
    by blast
  from sortSlice_untied[OF assms(1) insertionSorter_ok this] False
  show ?thesis by (simp add: AddRoute_def Let_def)
qed

lemma tiesFree_outputs:
  "sorter_ok srt \<Longrightarrow> tiesFree ops s \<Longrightarrow> outputs srt ops s = outputs insertionSorter ops s"
proof (induction ops arbitrary: s)
  case Nil
  show ?case by simp
next
  case (Cons x ops)
  show ?case
  proof (cases x)
    case (AddRouteOp p mt d)
    with Cons.prems have e: "AddRoute srt p mt d s = AddRoute insertionSorter p mt d s"
      using AddRoute_untied by simp
    from Cons.prems AddRouteOp have "tiesFree ops (snd (AddRoute insertionSorter p mt d s))"
      by simp
    from Cons.IH[OF Cons.prems(1) this] e AddRouteOp show ?thesis by simp
  next
    case (RouteLookupOp p)
    with Cons.prems have "tiesFree ops (snd (RouteLookup p s))" by simp
    from Cons.IH[OF Cons.prems(1) this] RouteLookupOp show ?thesis by simp
  qed
qed

text \<open>
  Claim C9: from the initial tables, the worked example of the header comment (the calls
  of \<^verbatim>\<open>main()\<close> and of \<^verbatim>\<open>addLookupTests\<close>) gives a nil error for each of the six
  registrations, then \<^verbatim>\<open>/api/1\<close> \<open>\<rightarrow>\<close> service-1, \<^verbatim>\<open>/api/1/2\<close> \<open>\<rightarrow>\<close> service-5,
  \<^verbatim>\<open>/api/3\<close> \<open>\<rightarrow>\<close> default-service, \<^verbatim>\<open>/api/2/1/2\<close> \<open>\<rightarrow>\<close> service-3,
  \<^verbatim>\<open>/api/2/\<close> \<open>\<rightarrow>\<close> service-4, and after \<^verbatim>\<open>AddRoute(/api/2/, prefix, service-7)\<close>,
  \<^verbatim>\<open>/api/2/\<close> \<open>\<rightarrow>\<close> service-7; every lookup with a nil error, and whatever conforming
  \<^verbatim>\<open>sort.Slice\<close> is used.
\<close>

theorem worked_example:
  assumes "sorter_ok srt"
  shows "outputs srt (exampleAdds @ exampleLookups) init =
    [AddRouteResult None, AddRouteResult None, AddRouteResult None,
     AddRouteResult None, AddRouteResult None, AddRouteResult None,
     RouteLookupResult ''service-1'' None,
     RouteLookupResult ''service-5'' None,
     RouteLookupResult ''default-service'' None,
     RouteLookupResult ''service-3'' None,
     RouteLookupResult ''service-4'' None,
     AddRouteResult None,
     RouteLookupResult ''service-7'' None]"
proof -
  have "tiesFree (exampleAdds @ exampleLookups) init"
    by code_simp
  from tiesFree_outputs[OF assms this]
  have "outputs srt (exampleAdds @ exampleLookups) init
          = outputs insertionSorter (exampleAdds @ exampleLookups) init" .
  also have "\<dots> =
    [AddRouteResult None, AddRouteResult None, AddRouteResult None,
     AddRouteResult None, AddRouteResult None, AddRouteResult None,
     RouteLookupResult ''service-1'' None,
     RouteLookupResult ''service-5'' None,
     RouteLookupResult ''default-service'' None,
     RouteLookupResult ''service-3'' None,
     RouteLookupResult ''service-4'' None,
     AddRouteResult None,
     RouteLookupResult ''service-7'' None]"
    by code_simp
  finally show ?thesis .
qed

theorem worked_example_witness:
  "outputs insertionSorter (exampleAdds @ exampleLookups) init =
    [AddRouteResult None, AddRouteResult None, AddRouteResult None,
     AddRouteResult None, AddRouteResult None, AddRouteResult None,
     RouteLookupResult ''service-1'' None,
     RouteLookupResult ''service-5'' None,
     RouteLookupResult ''default-service'' None,
     RouteLookupResult ''service-3'' None,
     RouteLookupResult ''service-4'' None,
     AddRouteResult None,
     RouteLookupResult ''service-7'' None]"
  by (rule worked_example[OF insertionSorter_ok])

section \<open>Any other \<^verbatim>\<open>matchType\<close> registers a prefix route\<close>

lemma sortSlice_map:
  assumes ok: "sorter_ok srt" and g: "\<And>r. length (path (g r)) = length (path r)"
  shows "sortSlice srt (map g t) = map g (sortSlice srt t)"
proof -
  let ?ks = "map (\<lambda>r. length (path r)) t"
  have ks: "map (\<lambda>r. length (path r)) (map g t) = ?ks"
    by (simp add: g)
  have r: "set (srt ?ks) = {0..<length t}"
    using sorter_ok_set[OF ok, of ?ks] by simp
  have "sortSlice srt (map g t) = map (\<lambda>i. map g t ! i) (srt ?ks)"
    by (simp only: sortSlice_def ks)
  also have "\<dots> = map (\<lambda>i. g (t ! i)) (srt ?ks)"
    by (rule map_cong) (simp_all add: r)
  also have "\<dots> = map g (sortSlice srt t)"
    by (simp add: sortSlice_def o_def)
  finally show ?thesis .
qed

lemma scanPrefixes_map:
  assumes "\<And>r. path (g r) = path r"
  shows "scanPrefixes q (map g t) = map_option g (scanPrefixes q t)"
  by (induction t) (simp_all add: prefixMatch_def assms)

lemma RouteLookup_relabel:
  assumes "exactMatchTable a = exactMatchTable b"
    and "prefixRoutesTable a = map g (prefixRoutesTable b)"
    and "\<And>r. path (g r) = path r" and "\<And>r. destination (g r) = destination r"
  shows "fst (RouteLookup q a) = fst (RouteLookup q b)"
proof (cases "scanPrefixes q (prefixRoutesTable b)")
  case None
  then show ?thesis
    using assms(1,2) scanPrefixes_map[of g q "prefixRoutesTable b", OF assms(3)]
    by (simp add: RouteLookup_def split: option.split)
next
  case (Some r)
  then show ?thesis
    using assms(1,2,4) scanPrefixes_map[of g q "prefixRoutesTable b", OF assms(3)]
    by (simp add: RouteLookup_def split: option.split)
qed

lemma AddRoute_modify:
  assumes "mt \<noteq> ''exact''" and "findPath p (prefixRoutesTable s) = Some i"
  shows "AddRoute srt p mt d s =
     (None, flushDynamicRoutes
        (s\<lparr>prefixRoutesTable :=
             (prefixRoutesTable s)[i := (prefixRoutesTable s ! i)\<lparr>destination := d\<rparr>]\<rparr>))"
  using assms by (simp add: AddRoute_def Let_def)

lemma AddRoute_insert:
  assumes "mt \<noteq> ''exact''" and "findPath p (prefixRoutesTable s) = None"
  shows "AddRoute srt p mt d s =
     (None, s\<lparr>prefixRoutesTable := sortSlice srt (prefixRoutesTable s @
               [\<lparr>path = p, matchType = mt, destination = d, dynamicEntry = False\<rparr>])\<rparr>)"
  using assms by (simp add: AddRoute_def Let_def)

text \<open>
  Claim C10: for every \<^verbatim>\<open>matchType\<close> \<open>mt\<close> other than \<^verbatim>\<open>"exact"\<close> (so also \<^verbatim>\<open>"exat"\<close> or
  the empty string), \<^verbatim>\<open>AddRoute(path, mt, destination)\<close> is processed as the registration
  of a prefix route: it returns nil and upserts the path into the prefix table. When the
  table already holds the path, the call is the \<^verbatim>\<open>"prefix"\<close> call exactly (tables \<open>a\<close> and
  \<open>b\<close> are equal): destination changed in place, cache flushed, ledger emptied. When it
  does not, the exact-match table and the ledger stay as they were and the prefix table
  is the one the \<^verbatim>\<open>"prefix"\<close> call builds, except that the new record carries \<open>mt\<close> in
  its \<^verbatim>\<open>matchType\<close> field, which no operation reads. Every following lookup returns the
  same in both.
\<close>

theorem unrecognised_matchType_registers_prefix:
  fixes srt p mt d s a b
  defines "a \<equiv> snd (AddRoute srt p mt d s)"
  defines "b \<equiv> snd (AddRoute srt p ''prefix'' d s)"
  assumes ok: "sorter_ok srt" and mt: "mt \<noteq> ''exact''"
  shows "fst (AddRoute srt p mt d s) = None
       \<and> (\<exists>r\<in>set (prefixRoutesTable a). path r = p \<and> destination r = d)
       \<and> (if p \<in> set (map path (prefixRoutesTable s))
          then a = b \<and> exactMatchTable a = exactMatchTable (flushDynamicRoutes s) \<and>
               dynamicEntries a = [] \<and>
               map path (prefixRoutesTable a) = map path (prefixRoutesTable s)
          else exactMatchTable a = exactMatchTable s \<and> dynamicEntries a = dynamicEntries s \<and>
               exactMatchTable b = exactMatchTable s \<and> dynamicEntries b = dynamicEntries s \<and>
               prefixRoutesTable a =
                 map (\<lambda>r. if path r = p then r\<lparr>matchType := mt\<rparr> else r) (prefixRoutesTable b))
       \<and> (\<forall>q. fst (RouteLookup q a) = fst (RouteLookup q b))"
proof -
  let ?g = "\<lambda>r. if path r = p then r\<lparr>matchType := mt\<rparr> else r"
  have ne: "''prefix'' \<noteq> ''exact''" by simp
  have e: "fst (AddRoute srt p mt d s) = None"
    by (simp add: AddRoute_def Let_def split: option.split)
  have reg: "\<exists>r\<in>set (prefixRoutesTable a). path r = p \<and> destination r = d"
    unfolding a_def by (rule AddRoute_prefix_registers[OF ok mt])
  show ?thesis
  proof (cases "findPath p (prefixRoutesTable s)")
    case (Some i)
    then have mem: "p \<in> set (map path (prefixRoutesTable s))"
      using findPath_None[of p "prefixRoutesTable s"] by simp
    have ab: "a = b"
      by (simp add: a_def b_def AddRoute_modify[OF mt Some] AddRoute_modify[OF ne Some])
    have "exactMatchTable a = exactMatchTable (flushDynamicRoutes s)"
      "dynamicEntries a = []"
      "map path (prefixRoutesTable a) = map path (prefixRoutesTable s)"
      by (simp_all add: a_def AddRoute_modify[OF mt Some] flushDynamicRoutes_def
          map_path_update[OF Some])
    with e reg mem ab show ?thesis by simp
  next
    case None
    then have mem: "p \<notin> set (map path (prefixRoutesTable s))"
      by (simp add: findPath_None)
    have a: "a = s\<lparr>prefixRoutesTable := sortSlice srt (prefixRoutesTable s @
               [\<lparr>path = p, matchType = mt, destination = d, dynamicEntry = False\<rparr>])\<rparr>"
      by (simp add: a_def AddRoute_insert[OF mt None])
    have b: "b = s\<lparr>prefixRoutesTable := sortSlice srt (prefixRoutesTable s @
               [\<lparr>path = p, matchType = ''prefix'', destination = d, dynamicEntry = False\<rparr>])\<rparr>"
      by (simp add: b_def AddRoute_insert[OF ne None])
    have "map ?g (prefixRoutesTable s) = prefixRoutesTable s"
      using mem by (intro map_idI) auto
    then have "map ?g (prefixRoutesTable s @
               [\<lparr>path = p, matchType = ''prefix'', destination = d, dynamicEntry = False\<rparr>])
             = prefixRoutesTable s @
               [\<lparr>path = p, matchType = mt, destination = d, dynamicEntry = False\<rparr>]"
      by simp
    with sortSlice_map[OF ok, of ?g "prefixRoutesTable s @
               [\<lparr>path = p, matchType = ''prefix'', destination = d, dynamicEntry = False\<rparr>]"]
    have t: "prefixRoutesTable a = map ?g (prefixRoutesTable b)"
      by (simp add: a b)
    have "fst (RouteLookup q a) = fst (RouteLookup q b)" for q
      by (rule RouteLookup_relabel[of a b ?g]) (simp_all add: t, simp_all add: a b)
    with e reg mem t show ?thesis by (simp add: a b)
  qed
qed

theorem unrecognised_matchType_registers_prefix_witness:
  "fst (AddRoute insertionSorter ''/x'' ''exat'' ''d'' init) = None
   \<and> fst (RouteLookup ''/x/y'' (snd (AddRoute insertionSorter ''/x'' ''exat'' ''d'' init)))
       = (''d'', None)
   \<and> fst (AddRoute insertionSorter ''/api/2/'' '''' ''service-7'' exampleTables) = None
   \<and> snd (AddRoute insertionSorter ''/api/2/'' '''' ''service-7'' exampleTables)
       = snd (AddRoute insertionSorter ''/api/2/'' ''prefix'' ''service-7'' exampleTables)"
proof -
  have n1: "''exat'' \<noteq> ''exact''" by simp
  have n2: "'''' \<noteq> ''exact''" by simp
  have v: "fst (RouteLookup ''/x/y'' (snd (AddRoute insertionSorter ''/x'' ''prefix'' ''d'' init)))
       = (''d'', None)"
    by code_simp
  have m: "''/api/2/'' \<in> set (map path (prefixRoutesTable exampleTables))"
    by code_simp
  from unrecognised_matchType_registers_prefix[OF insertionSorter_ok n1, of "''/x''" "''d''" init]
    unrecognised_matchType_registers_prefix[OF insertionSorter_ok n2, of "''/api/2/''" "''service-7''" exampleTables]
    v m
  show ?thesis by simp
qed

section \<open>Registering a new prefix path does not flush\<close>

lemma AddRoute_insert_no_flush:
  assumes "mt \<noteq> ''exact''" and "findPath p (prefixRoutesTable s) = None"
  shows "exactMatchTable (snd (AddRoute srt p mt d s)) = exactMatchTable s
       \<and> dynamicEntries (snd (AddRoute srt p mt d s)) = dynamicEntries s"
  by (simp add: AddRoute_insert[OF assms])

text \<open>
  Claim C1 says that every \<^verbatim>\<open>AddRoute\<close> of a prefix route that changes the prefix table,
  an insertion as well as a change of destination, flushes the generated entries before it
  returns. The code flushes on a change of destination only (\<open>AddRoute_modify\<close>); the
  insertion branch returns without the flush (\<open>AddRoute_insert_no_flush\<close>). Evaluated on
  the initial tables: \<^verbatim>\<open>RouteLookup("/a/b")\<close> returns and caches \<^verbatim>\<open>"default-service"\<close>;
  \<^verbatim>\<open>AddRoute("/a", "prefix", "svc")\<close> inserts a new prefix path, which matches
  \<^verbatim>\<open>/a/b\<close>; yet the generated entry and the ledger are still there and the next
  \<^verbatim>\<open>RouteLookup("/a/b")\<close> returns the stale \<^verbatim>\<open>"default-service"\<close>, where tables that never
  cached the path return \<^verbatim>\<open>"svc"\<close>.
\<close>

theorem insert_keeps_stale_cache:
  "fst (RouteLookup ''/a/b'' init) = (''default-service'', None)
   \<and> findPath ''/a'' (prefixRoutesTable (snd (RouteLookup ''/a/b'' init))) = None
   \<and> scanPrefixes ''/a/b'' (prefixRoutesTable staleExample)
       = Some \<lparr>path = ''/a'', matchType = ''prefix'', destination = ''svc'', dynamicEntry = False\<rparr>
   \<and> exactMatchTable staleExample ''/a/b''
       = Some \<lparr>path = ''/a/b'', matchType = ''exact'', destination = ''default-service'',
                dynamicEntry = True\<rparr>
   \<and> dynamicEntries staleExample = replicate 10 '''' @ [''/a/b'']
   \<and> fst (RouteLookup ''/a/b'' staleExample) = (''default-service'', None)
   \<and> fst (RouteLookup ''/a/b'' (run insertionSorter [AddRouteOp ''/a'' ''prefix'' ''svc''] init))
       = (''svc'', None)"
  by code_simp

end
